theory Spec2Isabelle
  imports Complex_Main "HOL-Library.Log_Nat"
begin

section \<open>The CodeHS console (src/console/console.js)\<close>

text \<open>
  The development embeds the class \<open>CodeHSConsole\<close>: its output buffers, the
  print family, the retry loop \<open>readNumber\<close> and the three parse functions handed to it
  by \<open>readBoolean\<close>, \<open>readInt\<close> and \<open>readFloat\<close>.

  Conventions of the embedding.
  \<^item> A JavaScript string is a HOL \<open>string\<close>; a character stands for the code unit of the
    same number, so the strings covered are those over code units below 256.
  \<^item> The value \<open>null\<close> of a prompt is \<open>None\<close>; a prompt result is a \<open>string option\<close>.
  \<^item> A Number is \<open>NaN\<close>, an infinity or a finite double, kept as the rational it is
    equal to. \<open>toDouble\<close> is the rounding of a mathematical value to the Number type
    (IEEE 754 binary64, to nearest, ties to even). The two zeros are one value: they are
    equal under \<open>==\<close> and neither is \<open>NaN\<close>.
  \<^item> A thrown exception is \<open>Inl\<close> of the error; every operation also returns the
    console as it is at that moment.
  \<^item> \<open>arguments\<close> is the list of the actual arguments of a call.
\<close>

subsection \<open>Values\<close>

datatype jsnum = NaN | Fin rat | PosInf | NegInf

datatype jsval = JNull | JBool bool | JNum jsnum

datatype error = Error string | ReferenceError string

text \<open>\<open>isNaN(v)\<close>: \<open>ToNumber\<close> sends \<open>null\<close> to 0 and a boolean to 0 or 1, so only the
  Number \<open>NaN\<close> answers true.\<close>

fun isNaN :: "jsval \<Rightarrow> bool" where
  "isNaN (JNum NaN) = True"
| "isNaN _ = False"

text \<open>\<open>a == b\<close> on two Numbers: \<open>NaN\<close> equals nothing, itself included.\<close>

definition num_eq :: "jsnum \<Rightarrow> jsnum \<Rightarrow> bool" where
  "num_eq a b = (if a = NaN then False else if b = NaN then False else a = b)"

text \<open>\<open>ToString\<close> on a prompt result: \<open>null\<close> becomes the four letters.\<close>

fun ToString :: "string option \<Rightarrow> string" where
  "ToString None = ''null''"
| "ToString (Some s) = s"

subsection \<open>Characters\<close>

abbreviation newline :: char where
  "newline \<equiv> CHR 0x0A"

definition code :: "char \<Rightarrow> nat" where
  "code c = of_char c"

definition isDigit :: "char \<Rightarrow> bool" where
  "isDigit c = (48 \<le> code c \<and> code c \<le> 57)"

definition isHexDigit :: "char \<Rightarrow> bool" where
  "isHexDigit c = (isDigit c \<or> (65 \<le> code c \<and> code c \<le> 70) \<or> (97 \<le> code c \<and> code c \<le> 102))"

definition digitVal :: "char \<Rightarrow> nat" where
  "digitVal c = (if isDigit c then code c - 48
                 else if 97 \<le> code c then code c - 87 else code c - 55)"

text \<open>White space and line terminators of ECMAScript among the code units below 256:
  TAB, LF, VT, FF, CR, SP and NBSP.\<close>

definition isWhiteSpace :: "char \<Rightarrow> bool" where
  "isWhiteSpace c = (code c \<in> {9, 10, 11, 12, 13, 32, 160})"

definition trimStart :: "string \<Rightarrow> string" where
  "trimStart s = dropWhile isWhiteSpace s"

text \<open>\<open>String.prototype.toLowerCase\<close> on code units below 256: A to Z, and the
  capital letters of Latin-1 (0xC0 to 0xDE without the multiplication sign 0xD7), move up
  by 32.\<close>

definition toLowerChar :: "char \<Rightarrow> char" where
  "toLowerChar c =
     (if 65 \<le> code c \<and> code c \<le> 90 then char_of (code c + 32)
      else if 192 \<le> code c \<and> code c \<le> 222 \<and> code c \<noteq> 215 then char_of (code c + 32)
      else c)"

definition toLowerCase :: "string \<Rightarrow> string" where
  "toLowerCase s = map toLowerChar s"

subsection \<open>The Number type\<close>

text \<open>Two to an integer power, as a rational.\<close>

definition pow2 :: "int \<Rightarrow> rat" where
  "pow2 e = (if 0 \<le> e then 2 ^ nat e else 1 / 2 ^ nat (- e))"

text \<open>The integer nearest to \<open>x\<close>; of two equally near, the even one.\<close>

definition roundHalfEven :: "rat \<Rightarrow> int" where
  "roundHalfEven x =
     (let f = \<lfloor>x\<rfloor>; r = x - of_int f
      in if r < 1 / 2 then f
         else if 1 / 2 < r then f + 1
         else if even f then f else f + 1)"

text \<open>For a positive \<open>x\<close>, the exponent \<open>e\<close> with \<open>2^e \<le> x < 2^(e+1)\<close>, from the bit
  lengths of the numerator and the denominator.\<close>

definition floorLog2 :: "rat \<Rightarrow> int" where
  "floorLog2 x =
     (let (a, b) = quotient_of x; e0 = bitlen a - bitlen b
      in if pow2 e0 \<le> x then e0 else e0 - 1)"

text \<open>
  The Number for a mathematical value (ECMAScript 6.1.6.1, IEEE 754 binary64): the
  nearest value with a 53-bit significand whose last place is \<open>2^q\<close>, where \<open>q\<close> is
  52 below the exponent of \<open>x\<close> and at least -1074 (the subnormal range); ties go to the
  even significand; a result of \<open>2^1024\<close> or more is an infinity.
\<close>

definition toDouble :: "rat \<Rightarrow> jsnum" where
  "toDouble x =
     (if x = 0 then Fin 0
      else
        (let a = \<bar>x\<bar>;
             q = max (floorLog2 a - 52) (- 1074);
             m = roundHalfEven (a / pow2 q);
             v = of_int m * pow2 q
         in if pow2 1024 \<le> v then (if x < 0 then NegInf else PosInf)
            else Fin (if x < 0 then - v else v)))"

subsection \<open>The global functions parseInt and parseFloat\<close>

text \<open>The value of a digit string in radix \<open>r\<close>, most significant digit first.\<close>

definition radixVal :: "nat \<Rightarrow> string \<Rightarrow> nat" where
  "radixVal r ds = foldl (\<lambda>a c. r * a + digitVal c) 0 ds"

text \<open>
  \<open>parseInt(string)\<close> with no radix (ECMAScript, 19.2.5): trim leading white space, read
  a sign, strip \<open>0x\<close> or \<open>0X\<close> and switch to radix 16, take the longest run of digits of
  the radix; no digit gives \<open>NaN\<close>. What follows the digits is ignored. The result is
  the Number for the signed value of the digits.
\<close>

definition parseInt :: "string \<Rightarrow> jsnum" where
  "parseInt inputString =
     (let S = trimStart inputString;
          sign = (if S \<noteq> [] \<and> hd S = CHR ''-'' then - 1 else 1 :: int);
          S1 = (if S \<noteq> [] \<and> (hd S = CHR ''+'' \<or> hd S = CHR ''-'') then tl S else S);
          hex = (take 2 S1 = ''0x'' \<or> take 2 S1 = ''0X'');
          S2 = (if hex then drop 2 S1 else S1);
          Z = (if hex then takeWhile isHexDigit S2 else takeWhile isDigit S2)
      in if Z = [] then NaN
         else toDouble (of_int (sign * int (radixVal (if hex then 16 else 10) Z))))"

text \<open>Ten to an integer power, as a rational.\<close>

definition pow10 :: "int \<Rightarrow> rat" where
  "pow10 e = (if 0 \<le> e then 10 ^ nat e else 1 / 10 ^ nat (- e))"

text \<open>The exponent part at the head of \<open>r\<close>: \<open>e\<close> or \<open>E\<close>, an optional sign and at
  least one digit. Where it is absent the exponent is 0.\<close>

definition exponentPart :: "string \<Rightarrow> int" where
  "exponentPart r =
     (case r of
        [] \<Rightarrow> 0
      | c # cs \<Rightarrow>
          if c = CHR ''e'' \<or> c = CHR ''E'' then
            (case cs of
               [] \<Rightarrow> 0
             | d # ds \<Rightarrow>
                 if d = CHR ''+'' then int (radixVal 10 (takeWhile isDigit ds))
                 else if d = CHR ''-'' then - int (radixVal 10 (takeWhile isDigit ds))
                 else int (radixVal 10 (takeWhile isDigit cs)))
          else 0)"

text \<open>
  \<open>parseFloat(string)\<close> (ECMAScript, 19.2.4): trim leading white space and read the
  longest prefix that is a \<open>StrDecimalLiteral\<close>: a sign, then \<open>Infinity\<close> or digits with
  an optional fraction and exponent, or a fraction that begins with the point. No such
  prefix gives \<open>NaN\<close>. What follows the prefix is ignored. The result is the Number
  for the decimal value of the prefix.
\<close>

definition parseFloat :: "string \<Rightarrow> jsnum" where
  "parseFloat inputString =
     (let t = trimStart inputString;
          neg = (t \<noteq> [] \<and> hd t = CHR ''-'');
          u = (if t \<noteq> [] \<and> (hd t = CHR ''+'' \<or> hd t = CHR ''-'') then tl t else t)
      in if take 8 u = ''Infinity'' then (if neg then NegInf else PosInf)
         else
           (let ip = takeWhile isDigit u;
                r1 = dropWhile isDigit u;
                point = (r1 \<noteq> [] \<and> hd r1 = CHR ''.'');
                fp = (if point then takeWhile isDigit (tl r1) else []);
                r2 = (if point then dropWhile isDigit (tl r1) else r1)
            in if ip = [] \<and> fp = [] then NaN
               else toDouble ((if neg then - 1 else 1) * of_nat (radixVal 10 (ip @ fp))
                              * pow10 (exponentPart r2 - int (length fp)))))"

subsection \<open>The console object\<close>

text \<open>
  The fields of the class are \<open>internalOutput\<close>, \<open>internalOutputBuffer\<close> and the two
  handlers. \<open>promptHandler\<close> is a function of the state of its host (\<open>env\<close>) and of the
  prompt text; it answers a string or \<open>null\<close> and a new host state. \<open>printHandler\<close>
  returns nothing: its calls are recorded in \<open>printed\<close>, those of \<open>promptHandler\<close> in
  \<open>prompted\<close>, in the order they are made.
\<close>

record 'g console =
  internalOutput :: "string list"
  internalOutputBuffer :: string
  promptHandler :: "'g \<Rightarrow> string \<Rightarrow> string option \<times> 'g"
  env :: 'g
  prompted :: "string list"
  printed :: "string list"

text \<open>\<open>String.prototype.split\<close> with a one-character separator: always at least one
  piece.\<close>

fun split :: "char \<Rightarrow> string \<Rightarrow> string list" where
  "split sep [] = [[]]"
| "split sep (c # cs) =
     (if c = sep then [] # split sep cs
      else (case split sep cs of
              [] \<Rightarrow> [[c]]
            | x # xs \<Rightarrow> (c # x) # xs))"

definition bufferedOutputToArray :: "string \<Rightarrow> string list" where
  "bufferedOutputToArray bufferedOutput =
     (let bufferedOutputArray = split newline bufferedOutput
      in if length (last bufferedOutputArray) = 0 then butlast bufferedOutputArray
         else bufferedOutputArray)"

definition quietPrint :: "string \<Rightarrow> 'g console \<Rightarrow> 'g console" where
  "quietPrint string c = c\<lparr>internalOutputBuffer := internalOutputBuffer c @ string\<rparr>"

definition quietPrintln :: "string \<Rightarrow> 'g console \<Rightarrow> 'g console" where
  "quietPrintln anything c = quietPrint (anything @ [newline]) c"

text \<open>
  \<open>flushQuietOutput\<close> calls \<open>bufferedOutputToArray(...)\<close> as a bare identifier, not as
  \<open>this.bufferedOutputToArray\<close>. A method of a class is not in the scope of the class
  body, so the identifier is looked up in the module and then in the global object. The
  parameter \<open>scope\<close> is the binding found there: \<open>None\<close> when there is none (the module
  declares no such function), and then the strict-mode lookup throws a ReferenceError
  before anything is reset. The two guards at the top of the method replace a missing
  field by the empty value and are the identity on the record.
\<close>

definition flushQuietOutput ::
    "(string \<Rightarrow> string list) option \<Rightarrow> 'g console \<Rightarrow> (error + string list) \<times> 'g console" where
  "flushQuietOutput scope c =
     (case scope of
        None \<Rightarrow> (Inl (ReferenceError ''bufferedOutputToArray is not defined''), c)
      | Some f \<Rightarrow>
          (let output = internalOutput c @ f (internalOutputBuffer c)
           in (Inr output, c\<lparr>internalOutput := [], internalOutputBuffer := []\<rparr>)))"

definition readLinePrivate :: "string \<Rightarrow> 'g console \<Rightarrow> string option \<times> 'g console" where
  "readLinePrivate promptString c =
     (let (r, g) = promptHandler c (env c) promptString
      in (r, c\<lparr>env := g, prompted := prompted c @ [promptString]\<rparr>))"

definition clear :: "'g console \<Rightarrow> 'g console" where
  "clear c = c\<lparr>internalOutput := [], internalOutputBuffer := []\<rparr>"

definition print :: "string list \<Rightarrow> 'g console \<Rightarrow> (error + unit) \<times> 'g console" where
  "print arguments c =
     (if length arguments \<noteq> 1
      then (Inl (Error ''You should pass exactly 1 argument to print''), c)
      else (let ln = hd arguments
            in (Inr (), c\<lparr>internalOutput := internalOutput c @ [ln],
                           printed := printed c @ [ln]\<rparr>)))"

text \<open>With no argument \<open>println\<close> assigns the empty string to \<open>ln\<close> and leaves the
  conditional: the call of \<open>print\<close> is in the last branch only.\<close>

definition println :: "string list \<Rightarrow> 'g console \<Rightarrow> (error + unit) \<times> 'g console" where
  "println arguments c =
     (if length arguments = 0 then (Inr (), c)
      else if length arguments \<noteq> 1
      then (Inl (Error ''You should pass exactly 1 argument to println''), c)
      else print [hd arguments @ [newline]] c)"

subsection \<open>The retry loop\<close>

text \<open>
  One turn of \<open>while (true)\<close> in \<open>readNumber\<close>, from the value of \<open>prompt\<close> and
  \<open>loopCount\<close> at its head. \<open>readLinePrivate\<close> ignores the second argument it is
  passed, so \<open>looping\<close> has no effect and is left out. The loop goes round only while
  \<open>loopCount\<close> is at most \<open>INFINITE_LOOP_CHECK\<close>, which bounds it.
\<close>

definition DEFAULT :: jsval where
  "DEFAULT = JNum (Fin 0)"

definition INFINITE_LOOP_CHECK :: nat where
  "INFINITE_LOOP_CHECK = 100"

function readNumber_loop ::
    "string \<Rightarrow> (string option \<Rightarrow> jsval) \<Rightarrow> string \<Rightarrow> string \<Rightarrow> nat \<Rightarrow> 'g console
      \<Rightarrow> jsval \<times> 'g console" where
  "readNumber_loop str parseFn errorMsgType prompt loopCount c =
     (let (line, c1) = readLinePrivate prompt c
      in if line = None then (JNull, c1)
         else
           (let result = parseFn line
            in if \<not> isNaN result then (result, c1)
               else if result = JNull then (DEFAULT, c1)
               else if loopCount > INFINITE_LOOP_CHECK then (DEFAULT, c1)
               else readNumber_loop str parseFn errorMsgType
                      (''That was not '' @ errorMsgType @ ''. Please try again. '' @ str)
                      (loopCount + 1) c1))"
  by pat_completeness auto
termination
  by (relation "measure (\<lambda>(str, parseFn, errorMsgType, prompt, loopCount, c).
                   Suc INFINITE_LOOP_CHECK - loopCount)") auto

declare readNumber_loop.simps [simp del]

text \<open>The prompt of every turn after the first.\<close>

definition retryPrompt :: "string \<Rightarrow> string \<Rightarrow> string" where
  "retryPrompt errorMsgType str =
     ''That was not '' @ errorMsgType @ ''. Please try again. '' @ str"

definition readNumber ::
    "string \<Rightarrow> (string option \<Rightarrow> jsval) \<Rightarrow> string \<Rightarrow> 'g console \<Rightarrow> jsval \<times> 'g console" where
  "readNumber str parseFn errorMsgType c = readNumber_loop str parseFn errorMsgType str 0 c"

subsection \<open>The public reads\<close>

definition readLine :: "string list \<Rightarrow> 'g console \<Rightarrow> (error + string option) \<times> 'g console" where
  "readLine arguments c =
     (if length arguments \<noteq> 1
      then (Inl (Error ''You should pass exactly 1 argument to readLine''), c)
      else (let (r, c1) = readLinePrivate (hd arguments) c in (Inr r, c1)))"

text \<open>The function \<open>readBoolean\<close> hands to \<open>readNumber\<close>.\<close>

definition readBoolean_parseFn :: "string option \<Rightarrow> jsval" where
  "readBoolean_parseFn line =
     (case line of
        None \<Rightarrow> JNum NaN
      | Some l \<Rightarrow>
          (let l1 = toLowerCase l
           in if l1 = ''true'' \<or> l1 = ''yes'' then JBool True
              else if l1 = ''false'' \<or> l1 = ''no'' then JBool False
              else JNum NaN))"

definition readBoolean :: "string list \<Rightarrow> 'g console \<Rightarrow> (error + jsval) \<times> 'g console" where
  "readBoolean arguments c =
     (if length arguments \<noteq> 1
      then (Inl (Error ''You should pass exactly 1 argument to readBoolean''), c)
      else (let (r, c1) = readNumber (hd arguments) readBoolean_parseFn
                            ''a boolean (true/false)'' c
            in (Inr r, c1)))"

text \<open>The function \<open>readInt\<close> hands to \<open>readNumber\<close>.\<close>

definition readInt_parseFn :: "string option \<Rightarrow> jsval" where
  "readInt_parseFn x =
     (let resultInt = parseInt (ToString x);
          resultFloat = parseFloat (ToString x)
      in if num_eq resultInt resultFloat then JNum resultInt else JNum NaN)"

definition readInt :: "string list \<Rightarrow> 'g console \<Rightarrow> (error + jsval) \<times> 'g console" where
  "readInt arguments c =
     (if length arguments \<noteq> 1
      then (Inl (Error ''You should pass exactly 1 argument to readInt''), c)
      else (let (r, c1) = readNumber (hd arguments) readInt_parseFn ''an integer'' c
            in (Inr r, c1)))"

text \<open>\<open>readFloat\<close> hands \<open>parseFloat\<close> itself to \<open>readNumber\<close>.\<close>

definition readFloat_parseFn :: "string option \<Rightarrow> jsval" where
  "readFloat_parseFn x = JNum (parseFloat (ToString x))"

definition readFloat :: "string list \<Rightarrow> 'g console \<Rightarrow> (error + jsval) \<times> 'g console" where
  "readFloat arguments c =
     (if length arguments \<noteq> 1
      then (Inl (Error ''You should pass exactly 1 argument to readFloat''), c)
      else (let (r, c1) = readNumber (hd arguments) readFloat_parseFn ''a float'' c
            in (Inr r, c1)))"

text \<open>The console the constructor builds, for a given prompt handler and host state.\<close>

definition new_console :: "('g \<Rightarrow> string \<Rightarrow> string option \<times> 'g) \<Rightarrow> 'g \<Rightarrow> 'g console" where
  "new_console h g =
     \<lparr>internalOutput = [], internalOutputBuffer = [], promptHandler = h, env = g,
      prompted = [], printed = []\<rparr>"

subsection \<open>Words up to the case of their letters\<close>

text \<open>
  This predicate is written from the wording of the specification, "any casing of" a
  word, and not from the source: \<open>casing_of w s\<close> holds when \<open>s\<close> spells the lower-case
  word \<open>w\<close>, each letter in either case. It is what \<open>readBoolean_parseFn\<close> is compared
  with.
\<close>

definition upperOf :: "char \<Rightarrow> char" where
  "upperOf d = char_of (code d - 32)"

definition casing_of :: "string \<Rightarrow> string \<Rightarrow> bool" where
  "casing_of w s = list_all2 (\<lambda>d c. c = d \<or> c = upperOf d) w s"

section \<open>Properties\<close>

subsection \<open>The Number type\<close>

lemma toDouble_nonzero:
  assumes "x \<noteq> 0"
    and "q = max (floorLog2 \<bar>x\<bar> - 52) (- 1074)"
    and "v = of_int (roundHalfEven (\<bar>x\<bar> / pow2 q)) * pow2 q"
  shows "toDouble x = (if pow2 1024 \<le> v then (if x < 0 then NegInf else PosInf)
                       else Fin (if x < 0 then - v else v))"
  unfolding toDouble_def Let_def assms(2,3) using assms(1) by (simp only: if_False)

text \<open>A rounding is never \<open>NaN\<close>.\<close>

lemma toDouble_not_NaN: "toDouble x \<noteq> NaN"
proof (cases "x = 0")
  case True
  then show ?thesis unfolding toDouble_def by simp
next
  case False
  define q where "q = max (floorLog2 \<bar>x\<bar> - 52) (- 1074)"
  define v where "v = of_int (roundHalfEven (\<bar>x\<bar> / pow2 q)) * pow2 q"
  from toDouble_nonzero [OF False q_def v_def] show ?thesis
    by (simp only: jsnum.distinct split: if_split) simp
qed

lemma pow2_powi: "pow2 e = 2 powi e"
  by (simp add: pow2_def power_int_def inverse_eq_divide power_one_over)

lemma pow2_pos: "0 < pow2 e"
  by (simp add: pow2_def)

lemma pow2_add: "pow2 (i + j) = pow2 i * pow2 j"
  by (simp add: pow2_powi power_int_add)

lemma pow2_nat: "0 \<le> e \<Longrightarrow> pow2 e = of_int (2 ^ nat e)"
  by (simp add: pow2_def)

lemma pow2_less_iff: "pow2 i < pow2 j \<longleftrightarrow> i < j"
proof
  assume "i < j"
  then show "pow2 i < pow2 j" by (simp add: pow2_powi power_int_strict_increasing)
next
  assume l: "pow2 i < pow2 j"
  show "i < j"
  proof (rule ccontr)
    assume "\<not> i < j"
    then have "j \<le> i" by simp
    then have "pow2 j \<le> pow2 i" by (simp add: pow2_powi power_int_increasing)
    with l show False by simp
  qed
qed

lemma pow2_le_iff: "pow2 i \<le> pow2 j \<longleftrightarrow> i \<le> j"
  using pow2_less_iff [of j i] by (simp add: not_less [symmetric])

lemma pow2_le_one: "e \<le> 0 \<Longrightarrow> pow2 e \<le> 1"
  by (simp add: pow2_def divide_le_eq_1 one_le_power)

text \<open>\<open>floorLog2\<close> is the binary exponent of a positive rational, and the only one.\<close>

lemma floorLog2_bounds:
  assumes "0 < x"
  shows "pow2 (floorLog2 x) \<le> x \<and> x < pow2 (floorLog2 x + 1)"
proof -
  obtain a b where q: "quotient_of x = (a, b)" by (cases "quotient_of x")
  then have b: "0 < b" by (rule quotient_of_denom_pos)
  have x: "x = of_int a / of_int b" using q by (rule quotient_of_div)
  with assms b have a: "0 < a" by (simp add: zero_less_divide_iff)
  define la lb where "la = bitlen a" and "lb = bitlen b"
  have la: "1 \<le> la" "of_int a < pow2 la" "pow2 (la - 1) \<le> of_int a"
  proof -
    show 1: "1 \<le> la" using a bitlen_eq_zero_iff [of a] bitlen_nonneg [of a] by (simp add: la_def)
    from bitlen_bounds [OF a] have "2 ^ nat (la - 1) \<le> a" "a < 2 ^ nat la" by (simp_all add: la_def)
    then have "(of_int (2 ^ nat (la - 1)) :: rat) \<le> of_int a" "(of_int a :: rat) < of_int (2 ^ nat la)"
      by (simp_all only: of_int_le_iff of_int_less_iff)
    with 1 show "of_int a < pow2 la" "pow2 (la - 1) \<le> of_int a" by (simp_all add: pow2_nat)
  qed
  have lb: "1 \<le> lb" "of_int b < pow2 lb" "pow2 (lb - 1) \<le> of_int b"
  proof -
    show 1: "1 \<le> lb" using b bitlen_eq_zero_iff [of b] bitlen_nonneg [of b] by (simp add: lb_def)
    from bitlen_bounds [OF b] have "2 ^ nat (lb - 1) \<le> b" "b < 2 ^ nat lb" by (simp_all add: lb_def)
    then have "(of_int (2 ^ nat (lb - 1)) :: rat) \<le> of_int b" "(of_int b :: rat) < of_int (2 ^ nat lb)"
      by (simp_all only: of_int_le_iff of_int_less_iff)
    with 1 show "of_int b < pow2 lb" "pow2 (lb - 1) \<le> of_int b" by (simp_all add: pow2_nat)
  qed
  have bpos: "(0::rat) < of_int b" using b by simp
  have up: "x < pow2 (la - lb + 1)"
  proof -
    have "of_int a < pow2 (la - lb + 1) * pow2 (lb - 1)"
      using la(2) by (simp add: pow2_add [symmetric])
    also have "\<dots> \<le> pow2 (la - lb + 1) * of_int b"
      using lb(3) pow2_pos [of "la - lb + 1"] by (simp add: mult_left_mono)
    finally show ?thesis using bpos by (simp add: x pos_divide_less_eq)
  qed
  have low: "pow2 (la - lb - 1) \<le> x"
  proof -
    have "pow2 (la - lb - 1) * of_int b \<le> pow2 (la - lb - 1) * pow2 lb"
      using lb(2) pow2_pos [of "la - lb - 1"] by (simp add: mult_left_mono)
    also have "\<dots> = pow2 (la - 1)" by (simp add: pow2_add [symmetric])
    also have "\<dots> \<le> of_int a" by (rule la(3))
    finally show ?thesis using bpos by (simp add: x pos_le_divide_eq)
  qed
  have fl: "floorLog2 x = (if pow2 (la - lb) \<le> x then la - lb else la - lb - 1)"
    by (simp add: floorLog2_def q la_def lb_def Let_def)
  show ?thesis
  proof (cases "pow2 (la - lb) \<le> x")
    case True
    with up show ?thesis by (simp add: fl)
  next
    case False
    with low show ?thesis by (simp add: fl)
  qed
qed

lemma floorLog2_unique:
  assumes "pow2 e \<le> x" "x < pow2 (e + 1)"
  shows "floorLog2 x = e"
proof -
  have "0 < x" using assms(1) pow2_pos [of e] by simp
  from floorLog2_bounds [OF this]
  have b: "pow2 (floorLog2 x) \<le> x" "x < pow2 (floorLog2 x + 1)" by simp_all
  from b(1) assms(2) have "pow2 (floorLog2 x) < pow2 (e + 1)" by simp
  then have 1: "floorLog2 x < e + 1" by (simp only: pow2_less_iff)
  from assms(1) b(2) have "pow2 e < pow2 (floorLog2 x + 1)" by simp
  then have 2: "e < floorLog2 x + 1" by (simp only: pow2_less_iff)
  from 1 2 show ?thesis by simp
qed

lemma roundHalfEven_of_int: "roundHalfEven (of_int k) = k"
  by (simp add: roundHalfEven_def)

lemma roundHalfEven_floor_le: "\<lfloor>x\<rfloor> \<le> roundHalfEven x"
  by (simp add: roundHalfEven_def Let_def)

text \<open>The rounding of a fraction of integers, by division with remainder.\<close>

lemma roundHalfEven_divide:
  assumes "0 < b"
  shows "roundHalfEven (of_int a / of_int b) =
           (if 2 * (a mod b) < b then a div b
            else if b < 2 * (a mod b) then a div b + 1
            else if even (a div b) then a div b else a div b + 1)"
proof -
  have f: "\<lfloor>(of_int a / of_int b :: rat)\<rfloor> = a div b" by (rule floor_divide_of_int_eq)
  have "(of_int a :: rat) = of_int (a div b * b + a mod b)" by simp
  also have "\<dots> = of_int (a div b) * of_int b + of_int (a mod b)"
    by (simp only: of_int_add of_int_mult)
  finally have "(of_int a / of_int b :: rat) = of_int (a div b) + of_int (a mod b) / of_int b"
    using assms by (simp add: field_simps)
  then have r: "(of_int a / of_int b :: rat) - of_int (a div b) = of_int (a mod b) / of_int b"
    by simp
  have bp: "(0::rat) < of_int b" using assms by simp
  have lt: "(of_int (a mod b) / of_int b < (1 / 2 :: rat)) = (2 * (a mod b) < b)"
  proof -
    have "(of_int (a mod b) / of_int b < (1 / 2 :: rat)) = ((of_int (2 * (a mod b)) :: rat) < of_int b)"
      using bp by (simp add: field_simps)
    then show ?thesis by (simp only: of_int_less_iff)
  qed
  have gt: "((1 / 2 :: rat) < of_int (a mod b) / of_int b) = (b < 2 * (a mod b))"
  proof -
    have "((1 / 2 :: rat) < of_int (a mod b) / of_int b) = ((of_int b :: rat) < of_int (2 * (a mod b)))"
      using bp by (simp add: field_simps)
    then show ?thesis by (simp only: of_int_less_iff)
  qed
  show ?thesis
    by (simp only: roundHalfEven_def Let_def f r lt gt)
qed

text \<open>The Number for an integer is an integer or an infinity.\<close>

lemma toDouble_of_int:
  "toDouble (of_int n) = PosInf \<or> toDouble (of_int n) = NegInf \<or>
   (\<exists>k::int. toDouble (of_int n) = Fin (of_int k))"
proof (cases "n = 0")
  case True
  then have "toDouble (of_int n) = Fin (of_int 0)" by (simp add: toDouble_def)
  then show ?thesis by blast
next
  case False
  define x :: rat where "x = of_int n"
  define a :: rat where "a = \<bar>x\<bar>"
  define q where "q = max (floorLog2 \<bar>x\<bar> - 52) (- 1074)"
  define v where "v = of_int (roundHalfEven (\<bar>x\<bar> / pow2 q)) * pow2 q"
  have x0: "x \<noteq> 0" using False by (simp add: x_def)
  have a: "a = of_int \<bar>n\<bar>" "1 \<le> a" using False by (simp_all add: a_def x_def)
  have e: "0 \<le> floorLog2 a"
  proof (rule ccontr)
    assume "\<not> 0 \<le> floorLog2 a"
    then have "floorLog2 a + 1 \<le> 0" by simp
    then have "pow2 (floorLog2 a + 1) \<le> 1" by (rule pow2_le_one)
    moreover have "a < pow2 (floorLog2 a + 1)"
      using floorLog2_bounds [of a] a(2) by simp
    ultimately show False using a(2) by simp
  qed
  have qe: "q = floorLog2 a - 52" using e by (simp add: q_def a_def)
  have vint: "\<exists>k::int. v = of_int k"
  proof (cases "0 \<le> q")
    case True
    then have "v = of_int (roundHalfEven (\<bar>x\<bar> / pow2 q) * 2 ^ nat q)"
      by (simp add: v_def pow2_nat)
    then show ?thesis by blast
  next
    case False
    then have p: "pow2 q = 1 / of_int (2 ^ nat (- q))" by (simp add: pow2_def)
    have "\<bar>x\<bar> / pow2 q = of_int (\<bar>n\<bar> * 2 ^ nat (- q))"
      using a(1) by (simp add: p a_def)
    then have "v = of_int (\<bar>n\<bar> * 2 ^ nat (- q)) * pow2 q"
      by (simp only: v_def roundHalfEven_of_int)
    also have "\<dots> = of_int \<bar>n\<bar>" by (simp add: p)
    finally show ?thesis by blast
  qed
  then obtain k :: int where k: "v = of_int k" by blast
  have "toDouble x = (if pow2 1024 \<le> v then (if x < 0 then NegInf else PosInf)
                       else Fin (if x < 0 then - v else v))"
    by (rule toDouble_nonzero [OF x0 q_def v_def])
  then have "toDouble x = NegInf \<or> toDouble x = PosInf \<or>
             toDouble x = Fin (of_int (- k)) \<or> toDouble x = Fin (of_int k)"
    by (cases "pow2 1024 \<le> v"; cases "x < 0") (simp_all only: k of_int_minus if_True if_False simp_thms)
  then show ?thesis unfolding x_def by blast
qed

text \<open>A value with a significand below \<open>2^53\<close> and an exponent in range is a double:
  it is its own rounding.\<close>

lemma toDouble_representable:
  assumes m: "\<bar>m\<bar> < 2 ^ 53" and q: "- 1074 \<le> q" "q \<le> 971"
  shows "toDouble (of_int m * pow2 q) = Fin (of_int m * pow2 q)"
proof (cases "m = 0")
  case True
  then show ?thesis by (simp add: toDouble_def)
next
  case False
  define x where "x = of_int m * pow2 q"
  define a where "a = \<bar>x\<bar>"
  define q' where "q' = max (floorLog2 \<bar>x\<bar> - 52) (- 1074)"
  define v where "v = of_int (roundHalfEven (\<bar>x\<bar> / pow2 q')) * pow2 q'"
  have x0: "x \<noteq> 0" using False pow2_pos [of q] by (simp add: x_def)
  have a: "a = of_int \<bar>m\<bar> * pow2 q"
    using pow2_pos [of q] by (simp add: a_def x_def abs_mult)
  have apos: "0 < a" using x0 by (simp add: a_def)
  have "of_int \<bar>m\<bar> < (of_int (2 ^ 53) :: rat)" using m by (simp only: of_int_less_iff)
  then have "of_int \<bar>m\<bar> < pow2 53" by (simp add: pow2_def)
  then have "a < pow2 53 * pow2 q" using pow2_pos [of q] by (simp add: a)
  then have alt: "a < pow2 (53 + q)" by (simp add: pow2_add)
  from floorLog2_bounds [OF apos] have "pow2 (floorLog2 a) \<le> a" by simp
  with alt have "pow2 (floorLog2 a) < pow2 (53 + q)" by simp
  then have "floorLog2 a < 53 + q" by (simp only: pow2_less_iff)
  with q(1) have q'le: "q' \<le> q" by (simp add: q'_def a_def)
  have split: "pow2 q = pow2 q' * of_int (2 ^ nat (q - q'))"
  proof -
    have "pow2 q = pow2 (q' + (q - q'))" by simp
    also have "\<dots> = pow2 q' * pow2 (q - q')" by (rule pow2_add)
    also have "pow2 (q - q') = of_int (2 ^ nat (q - q'))" using q'le by (simp add: pow2_nat)
    finally show ?thesis .
  qed
  have "\<bar>x\<bar> / pow2 q' = of_int (\<bar>m\<bar> * 2 ^ nat (q - q'))"
    using pow2_pos [of q'] a by (simp add: a_def split)
  then have "v = of_int (\<bar>m\<bar> * 2 ^ nat (q - q')) * pow2 q'"
    by (simp only: v_def roundHalfEven_of_int)
  also have "\<dots> = a" by (simp add: a split)
  finally have va: "v = a" .
  have "pow2 (53 + q) \<le> pow2 1024" using q(2) by (simp only: pow2_le_iff)
  with alt have nov: "\<not> pow2 1024 \<le> v" by (simp add: va)
  have "toDouble x = (if pow2 1024 \<le> v then (if x < 0 then NegInf else PosInf)
                       else Fin (if x < 0 then - v else v))"
    by (rule toDouble_nonzero [OF x0 q'_def v_def])
  with nov have "toDouble x = Fin (if x < 0 then - v else v)" by (simp only: if_False)
  also have "(if x < 0 then - v else v) = x" by (simp add: va a_def)
  finally show ?thesis by (simp only: x_def)
qed

lemma toDouble_small_int: "\<bar>n\<bar> < 2 ^ 53 \<Longrightarrow> toDouble (of_int n) = Fin (of_int n)"
  using toDouble_representable [of n 0] by (simp add: pow2_def)

text \<open>A value of \<open>2^1024\<close> or more rounds to the infinity.\<close>

lemma toDouble_overflow:
  assumes "pow2 1024 \<le> x"
  shows "toDouble x = PosInf"
proof -
  define e where "e = floorLog2 x"
  define q where "q = max (floorLog2 \<bar>x\<bar> - 52) (- 1074)"
  define v where "v = of_int (roundHalfEven (\<bar>x\<bar> / pow2 q)) * pow2 q"
  have xpos: "0 < x" using assms pow2_pos [of 1024] by simp
  then have ax: "\<bar>x\<bar> = x" by simp
  from floorLog2_bounds [OF xpos] have b: "pow2 e \<le> x" "x < pow2 (e + 1)" by (simp_all add: e_def)
  from assms b(2) have "pow2 1024 < pow2 (e + 1)" by simp
  then have e: "1024 \<le> e" by (simp only: pow2_less_iff)
  then have qe: "q = e - 52" by (simp add: q_def e_def ax)
  have "pow2 52 * pow2 q = pow2 e" by (simp add: qe pow2_add [symmetric])
  with b(1) have "pow2 52 \<le> x / pow2 q" using pow2_pos [of q] by (simp add: pos_le_divide_eq)
  then have "(of_int (2 ^ 52) :: rat) \<le> x / pow2 q" by (simp add: pow2_def)
  then have f: "2 ^ 52 \<le> \<lfloor>x / pow2 q\<rfloor>" by (simp only: le_floor_iff)
  have "2 ^ 52 \<le> roundHalfEven (x / pow2 q)"
    by (rule order_trans [OF f roundHalfEven_floor_le])
  then have "(of_int (2 ^ 52) :: rat) \<le> of_int (roundHalfEven (x / pow2 q))"
    by (simp only: of_int_le_iff)
  then have "pow2 52 \<le> of_int (roundHalfEven (x / pow2 q))" by (simp add: pow2_def)
  then have "pow2 52 * pow2 q \<le> v" using pow2_pos [of q] by (simp add: v_def ax mult_right_mono)
  moreover have "pow2 1024 \<le> pow2 52 * pow2 q"
    using e by (simp only: pow2_add [symmetric] pow2_le_iff qe)
  ultimately have ov: "pow2 1024 \<le> v" by simp
  have "toDouble x = (if pow2 1024 \<le> v then (if x < 0 then NegInf else PosInf)
                       else Fin (if x < 0 then - v else v))"
    using xpos by (intro toDouble_nonzero [OF _ q_def v_def]) simp
  with ov xpos show ?thesis by simp
qed

text \<open>The rounding of a positive value, from its exponent and the rounded significand.\<close>

lemma toDouble_nearest:
  assumes "pow2 e \<le> x" and "x < pow2 (e + 1)"
    and "q = max (e - 52) (- 1074)"
    and "roundHalfEven (x / pow2 q) = m"
    and "of_int m * pow2 q < pow2 1024"
  shows "toDouble x = Fin (of_int m * pow2 q)"
proof -
  have xpos: "0 < x" using assms(1) pow2_pos [of e] by simp
  then have ax: "\<bar>x\<bar> = x" by simp
  have fl: "floorLog2 x = e" by (rule floorLog2_unique [OF assms(1,2)])
  have q: "q = max (floorLog2 \<bar>x\<bar> - 52) (- 1074)" by (simp only: ax fl assms(3))
  have v: "of_int m * pow2 q = of_int (roundHalfEven (\<bar>x\<bar> / pow2 q)) * pow2 q"
    by (simp only: ax assms(4))
  have "toDouble x = (if pow2 1024 \<le> of_int m * pow2 q then (if x < 0 then NegInf else PosInf)
                       else Fin (if x < 0 then - (of_int m * pow2 q) else of_int m * pow2 q))"
    using xpos by (intro toDouble_nonzero [OF _ q v]) simp
  with assms(5) xpos show ?thesis by simp
qed

subsection \<open>The parse functions\<close>

lemmas parse_defs = parseInt_def parseFloat_def trimStart_def isWhiteSpace_def isDigit_def
  isHexDigit_def code_def radixVal_def digitVal_def pow10_def exponentPart_def Let_def

lemma isNaN_JNum: "isNaN (JNum x) = (x = NaN)"
  by (cases x) simp_all

text \<open>
  Values of the two parses: exact ones, a fraction too long for a double (rounded to 3), a
  tie between two doubles (to the even one), an overflow and an underflow.
\<close>

lemma parse_3_5: "parseInt ''3.5'' = Fin 3" "parseFloat ''3.5'' = Fin (7 / 2)"
proof -
  have "parseInt ''3.5'' = toDouble (of_int 3)" by (simp add: parse_defs)
  also have "\<dots> = Fin (of_int 3)" by (rule toDouble_small_int) simp
  finally show "parseInt ''3.5'' = Fin 3" by simp
  have "parseFloat ''3.5'' = toDouble (of_int 7 * pow2 (- 1))" by (simp add: parse_defs pow2_def)
  also have "\<dots> = Fin (of_int 7 * pow2 (- 1))" by (rule toDouble_representable) simp_all
  finally show "parseFloat ''3.5'' = Fin (7 / 2)" by (simp add: pow2_def)
qed

lemma parse_3_0: "parseInt ''3.0'' = Fin 3" "parseFloat ''3.0'' = Fin 3"
proof -
  have "parseInt ''3.0'' = toDouble (of_int 3)" by (simp add: parse_defs)
  also have "\<dots> = Fin (of_int 3)" by (rule toDouble_small_int) simp
  finally show "parseInt ''3.0'' = Fin 3" by simp
  have "parseFloat ''3.0'' = toDouble (of_int 3)" by (simp add: parse_defs)
  also have "\<dots> = Fin (of_int 3)" by (rule toDouble_small_int) simp
  finally show "parseFloat ''3.0'' = Fin 3" by simp
qed

lemma parse_12abc: "parseInt ''12abc'' = Fin 12" "parseFloat ''12abc'' = Fin 12"
proof -
  have "parseInt ''12abc'' = toDouble (of_int 12)" by (simp add: parse_defs)
  also have "\<dots> = Fin (of_int 12)" by (rule toDouble_small_int) simp
  finally show "parseInt ''12abc'' = Fin 12" by simp
  have "parseFloat ''12abc'' = toDouble (of_int 12)" by (simp add: parse_defs)
  also have "\<dots> = Fin (of_int 12)" by (rule toDouble_small_int) simp
  finally show "parseFloat ''12abc'' = Fin 12" by simp
qed

lemma parse_long_fraction:
  "parseInt ''3.0000000000000000001'' = Fin 3"
  "parseFloat ''3.0000000000000000001'' = Fin 3"
proof -
  have "parseInt ''3.0000000000000000001'' = toDouble (of_int 3)" by (simp add: parse_defs)
  also have "\<dots> = Fin (of_int 3)" by (rule toDouble_small_int) simp
  finally show "parseInt ''3.0000000000000000001'' = Fin 3" by simp
  define x :: rat where "x = 30000000000000000001 / 10000000000000000000"
  have d: "x / pow2 (- 51) = of_int (30000000000000000001 * 2 ^ 51) / of_int 10000000000000000000"
    by (simp add: x_def pow2_def)
  have "roundHalfEven (x / pow2 (- 51)) = 6755399441055744"
    unfolding d by (subst roundHalfEven_divide) simp_all
  then have "toDouble x = Fin (of_int 6755399441055744 * pow2 (- 51))"
    by (intro toDouble_nearest [where e = 1]) (simp_all add: x_def pow2_def)
  moreover have "parseFloat ''3.0000000000000000001'' = toDouble x"
    by (simp add: parse_defs x_def)
  ultimately show "parseFloat ''3.0000000000000000001'' = Fin 3" by (simp add: pow2_def)
qed

lemma parse_tie:
  "parseInt ''9007199254740993'' = Fin 9007199254740992"
  "parseFloat ''9007199254740993'' = Fin 9007199254740992"
proof -
  define x :: rat where "x = 9007199254740993"
  have d: "x / pow2 1 = of_int 9007199254740993 / of_int 2"
    by (simp add: x_def pow2_def)
  have "roundHalfEven (x / pow2 1) = 4503599627370496"
    unfolding d by (subst roundHalfEven_divide) simp_all
  then have r: "toDouble x = Fin (of_int 4503599627370496 * pow2 1)"
    by (intro toDouble_nearest [where e = 53]) (simp_all add: x_def pow2_def)
  have "parseInt ''9007199254740993'' = toDouble x" by (simp add: parse_defs x_def)
  with r show "parseInt ''9007199254740993'' = Fin 9007199254740992" by (simp add: pow2_def)
  have "parseFloat ''9007199254740993'' = toDouble x" by (simp add: parse_defs x_def)
  with r show "parseFloat ''9007199254740993'' = Fin 9007199254740992" by (simp add: pow2_def)
qed

lemma parse_overflow: "parseInt ''1e400'' = Fin 1" "parseFloat ''1e400'' = PosInf"
proof -
  have "parseInt ''1e400'' = toDouble (of_int 1)" by (simp add: parse_defs)
  also have "\<dots> = Fin (of_int 1)" by (rule toDouble_small_int) simp
  finally show "parseInt ''1e400'' = Fin 1" by simp
  have "parseFloat ''1e400'' = toDouble (10 ^ 400)" by (simp add: parse_defs)
  also have "\<dots> = PosInf" by (rule toDouble_overflow) (simp add: pow2_def)
  finally show "parseFloat ''1e400'' = PosInf" .
qed

lemma parse_underflow: "parseFloat ''1e-400'' = Fin 0"
proof -
  define x :: rat where "x = 1 / 10 ^ 400"
  have d: "x / pow2 (- 1074) = of_int (2 ^ 1074) / of_int (10 ^ 400)"
    by (simp add: x_def pow2_def)
  have "roundHalfEven (x / pow2 (- 1074)) = 0"
    unfolding d by (subst roundHalfEven_divide) simp_all
  then have "toDouble x = Fin (of_int 0 * pow2 (- 1074))"
    by (intro toDouble_nearest [where e = "- 1329"]) (simp_all add: x_def pow2_def)
  moreover have "parseFloat ''1e-400'' = toDouble x"
    by (simp add: parse_defs x_def)
  ultimately show ?thesis by simp
qed

lemma parseInt_integer:
  "parseInt s = NaN \<or> parseInt s = PosInf \<or> parseInt s = NegInf \<or>
   (\<exists>n::int. parseInt s = Fin (of_int n))"
proof -
  have "parseInt s = NaN \<or> (\<exists>k::int. parseInt s = toDouble (of_int k))"
    unfolding parseInt_def Let_def by (simp only: split: if_split) blast
  then show ?thesis using toDouble_of_int by metis
qed

text \<open>
  Claim C6. The function \<open>readInt\<close> passes accepts a string exactly when \<open>parseInt\<close> and
  \<open>parseFloat\<close> both give a Number other than \<open>NaN\<close> and the two Numbers are equal; it
  then returns the result of \<open>parseInt\<close>, which is an integer (or an infinity, for a
  numeral beyond the range of the doubles). \<open>"3.5"\<close> parses to 3 and to 3.5 and is
  rejected; \<open>"3.0"\<close> parses to 3 both ways and is accepted as 3; so is a fraction that
  rounds to 3 as a double.
\<close>

theorem integer_strategy_accepts_iff_parses_agree:
  "readInt_parseFn (Some s)
     = (if parseInt s \<noteq> NaN \<and> parseFloat s \<noteq> NaN \<and> parseInt s = parseFloat s
        then JNum (parseInt s) else JNum NaN) \<and>
   (\<not> isNaN (readInt_parseFn (Some s)))
     = (parseInt s \<noteq> NaN \<and> parseFloat s \<noteq> NaN \<and> parseInt s = parseFloat s) \<and>
   (isNaN (readInt_parseFn (Some s)) \<or> readInt_parseFn (Some s) = JNum PosInf \<or>
    readInt_parseFn (Some s) = JNum NegInf \<or>
    (\<exists>n::int. readInt_parseFn (Some s) = JNum (Fin (of_int n)))) \<and>
   parseInt ''3.5'' = Fin 3 \<and> parseFloat ''3.5'' = Fin (7 / 2) \<and>
   readInt_parseFn (Some ''3.5'') = JNum NaN \<and>
   parseInt ''3.0'' = Fin 3 \<and> parseFloat ''3.0'' = Fin 3 \<and>
   readInt_parseFn (Some ''3.0'') = JNum (Fin 3) \<and>
   readInt_parseFn (Some ''3.0000000000000000001'') = JNum (Fin 3)"
proof -
  have gen: "readInt_parseFn (Some s)
     = (if parseInt s \<noteq> NaN \<and> parseFloat s \<noteq> NaN \<and> parseInt s = parseFloat s
        then JNum (parseInt s) else JNum NaN)"
    by (simp add: readInt_parseFn_def num_eq_def Let_def)
  have acc: "(\<not> isNaN (readInt_parseFn (Some s)))
     = (parseInt s \<noteq> NaN \<and> parseFloat s \<noteq> NaN \<and> parseInt s = parseFloat s)"
    by (simp add: gen isNaN_JNum)
  have int: "isNaN (readInt_parseFn (Some s)) \<or> readInt_parseFn (Some s) = JNum PosInf \<or>
    readInt_parseFn (Some s) = JNum NegInf \<or>
    (\<exists>n::int. readInt_parseFn (Some s) = JNum (Fin (of_int n)))"
  proof (cases "parseInt s \<noteq> NaN \<and> parseFloat s \<noteq> NaN \<and> parseInt s = parseFloat s")
    case True
    then have "readInt_parseFn (Some s) = JNum (parseInt s)" by (simp add: gen)
    with True parseInt_integer [of s] show ?thesis by auto
  next
    case False
    then have "readInt_parseFn (Some s) = JNum NaN"
      by (simp only: gen if_False)
    then show ?thesis by simp
  qed
  have inst: "readInt_parseFn (Some ''3.5'') = JNum NaN"
    "readInt_parseFn (Some ''3.0'') = JNum (Fin 3)"
    "readInt_parseFn (Some ''3.0000000000000000001'') = JNum (Fin 3)"
    by (simp_all add: readInt_parseFn_def num_eq_def parse_3_5 parse_3_0 parse_long_fraction)
  from gen acc int inst parse_3_5 parse_3_0 show ?thesis by blast
qed

theorem integer_strategy_accepts_iff_parses_agree_witness:
  "parseInt ''3.0'' = parseFloat ''3.0'' \<and> readInt_parseFn (Some ''3.0'') = JNum (Fin 3)"
  using integer_strategy_accepts_iff_parses_agree [of "''3.0''"] by simp

lemma digit_facts:
  assumes "isDigit c"
  shows "\<not> isWhiteSpace c" "c \<noteq> CHR ''-''" "c \<noteq> CHR ''+''" "c \<noteq> CHR ''x''" "c \<noteq> CHR ''X''"
    "c \<noteq> CHR ''I''" "c \<noteq> CHR ''.''"
  using assms by (auto simp add: isDigit_def isWhiteSpace_def code_def)

text \<open>A run of decimal digits, followed by nothing or by a character that is neither a
  digit nor one of \<open>.\<close>, \<open>e\<close>, \<open>E\<close>, \<open>x\<close>, \<open>X\<close>, parses to the Number for the value of
  the run, both ways.\<close>

lemma numeral_prefix:
  assumes d: "d \<noteq> []" "list_all isDigit d"
    and t: "t = [] \<or> \<not> isDigit (hd t) \<and> hd t \<notin> set ''.eExX''"
  shows "parseInt (d @ t) = toDouble (of_nat (radixVal 10 d))"
    and "parseFloat (d @ t) = toDouble (of_nat (radixVal 10 d))"
proof -
  from d obtain c d' where dc: "d = c # d'" "isDigit c" "list_all isDigit d'"
    by (cases d) auto
  have all: "\<And>x. x \<in> set d \<Longrightarrow> isDigit x" using d(2) by (simp add: list_all_iff)
  have trim: "trimStart (d @ t) = d @ t"
    using dc digit_facts(1) by (simp add: trimStart_def)
  have tw: "takeWhile isDigit (d @ t) = d"
    using all t by (cases t) auto
  have dw: "dropWhile isDigit (d @ t) = t"
    using all t by (cases t) auto
  have nohex: "take 2 (d @ t) \<noteq> ''0x''" "take 2 (d @ t) \<noteq> ''0X''"
    using dc t digit_facts(4,5) by (cases d'; cases t; auto simp add: list_all_iff)+
  have noinf: "take 8 (d @ t) \<noteq> ''Infinity''"
    using dc digit_facts(6) by auto
  have ex: "exponentPart t = 0"
    using t by (cases t) (auto simp add: exponentPart_def)
  have pt: "(t \<noteq> [] \<and> hd t = CHR ''.'') = False" using t by auto
  have hdd: "hd (d @ t) \<noteq> CHR ''-''" "hd (d @ t) \<noteq> CHR ''+''"
    using dc digit_facts(2,3) by auto
  show "parseInt (d @ t) = toDouble (of_nat (radixVal 10 d))"
    using d(1) by (simp add: parseInt_def Let_def trim tw nohex hdd del: hd_append2 take_append)
  show "parseFloat (d @ t) = toDouble (of_nat (radixVal 10 d))"
    using d(1) by (simp add: parseFloat_def Let_def trim tw dw noinf hdd ex pt pow10_def del: hd_append2 take_append)
qed

text \<open>A string with no numeral at its start parses to \<open>NaN\<close>, both ways: after leading
  white space and at most one sign, it ends, or goes on with a character that is not a
  digit, nor the point or the \<open>I\<close> that may begin a float literal.\<close>

lemma no_numeral_unsigned:
  assumes "r = [] \<or> \<not> isDigit (hd r) \<and> hd r \<notin> set ''.I''"
  shows "takeWhile isDigit r = []" "take 2 r \<noteq> ''0x''" "take 2 r \<noteq> ''0X''"
    "take 8 r \<noteq> ''Infinity''" "(dropWhile isDigit r \<noteq> [] \<and> hd (dropWhile isDigit r) = CHR ''.'') = False"
  using assms by (cases r; auto simp add: isDigit_def code_def)+

lemma parse_unsigned_NaN:
  assumes r: "r = [] \<or> \<not> isDigit (hd r) \<and> hd r \<notin> set ''.I''"
    and S: "S = r \<and> (r = [] \<or> hd r \<notin> set ''+-'') \<or> S = CHR ''+'' # r \<or> S = CHR ''-'' # r"
    and trim: "trimStart s = S"
  shows "parseInt s = NaN" and "parseFloat s = NaN"
proof -
  note nn = no_numeral_unsigned [OF r]
  from S have S1: "(if S \<noteq> [] \<and> (hd S = CHR ''+'' \<or> hd S = CHR ''-'') then tl S else S) = r"
    by auto
  show "parseInt s = NaN"
    by (simp only: parseInt_def Let_def trim S1 nn if_False simp_thms if_True)
  show "parseFloat s = NaN"
    by (simp only: parseFloat_def Let_def trim S1 nn if_False simp_thms if_True)
qed

lemma no_numeral_rejected:
  assumes ws: "list_all isWhiteSpace ws"
    and sg: "sg = [] \<or> sg = ''+'' \<or> sg = ''-''"
    and r: "r = [] \<or> \<not> isDigit (hd r) \<and> hd r \<notin> set ''.I''"
    and r0: "sg = [] \<longrightarrow> r = [] \<or> \<not> isWhiteSpace (hd r) \<and> hd r \<notin> set ''+-''"
  shows "parseInt (ws @ sg @ r) = NaN" and "parseFloat (ws @ sg @ r) = NaN"
proof -
  have all: "\<And>x. x \<in> set ws \<Longrightarrow> isWhiteSpace x" using ws by (simp add: list_all_iff)
  have nws: "\<not> isWhiteSpace (CHR ''+'')" "\<not> isWhiteSpace (CHR ''-'')"
    by (simp_all add: isWhiteSpace_def code_def)
  have "dropWhile isWhiteSpace (sg @ r) = sg @ r"
    using sg r0 nws by (cases r) auto
  then have trim: "trimStart (ws @ sg @ r) = sg @ r"
    using all by (simp add: trimStart_def)
  have S: "sg @ r = r \<and> (r = [] \<or> hd r \<notin> set ''+-'') \<or> sg @ r = CHR ''+'' # r \<or> sg @ r = CHR ''-'' # r"
    using sg r0 by auto
  show "parseInt (ws @ sg @ r) = NaN" by (rule parse_unsigned_NaN(1) [OF r S trim])
  show "parseFloat (ws @ sg @ r) = NaN" by (rule parse_unsigned_NaN(2) [OF r S trim])
qed

text \<open>No accepted word of the boolean function is the start of a longer accepted one.\<close>

lemma boolean_no_longer_word:
  assumes "\<not> isNaN (readBoolean_parseFn (Some w))" "u \<noteq> []"
  shows "isNaN (readBoolean_parseFn (Some (w @ u)))"
proof -
  from assms(1) have w: "toLowerCase w \<in> {''true'', ''yes'', ''false'', ''no''}"
    by (auto simp add: readBoolean_parseFn_def Let_def split: if_splits)
  from assms(2) obtain x xs where u: "toLowerCase u = x # xs"
    by (cases u) (auto simp add: toLowerCase_def)
  have "toLowerCase (w @ u) = toLowerCase w @ x # xs"
    using u by (simp add: toLowerCase_def)
  with w show ?thesis
    by (auto simp add: readBoolean_parseFn_def Let_def)
qed

text \<open>
  Claim C7, as the code has it. The outcome of each parse function on a string is either
  a value of its domain or \<open>NaN\<close>: an integer, an infinity or \<open>NaN\<close> for \<open>readInt\<close>, a
  Number for \<open>readFloat\<close>, a boolean or \<open>NaN\<close> for \<open>readBoolean\<close>. The boolean function
  matches whole strings only: an accepted word followed by more characters is rejected.
  The integer and float functions reject a string with no numeral at its start (after the
  white space \<open>ws\<close> and the optional sign \<open>sg\<close>, the rest \<open>r\<close> does not begin a
  numeral). They match a prefix, as \<open>parseInt\<close> and \<open>parseFloat\<close> do: a string that
  begins with a run of decimal digits \<open>d\<close> is accepted with the Number for the value of
  \<open>d\<close>, and the characters \<open>t\<close> after it are ignored (provided \<open>t\<close> does not go on
  with a digit, a point, an exponent or the \<open>x\<close> of a hexadecimal prefix, which would
  belong to the numeral).
\<close>

theorem strategies_outcome_and_prefix_match:
  assumes "d \<noteq> []" and "list_all isDigit d"
    and "t = [] \<or> \<not> isDigit (hd t) \<and> hd t \<notin> set ''.eExX''"
    and "list_all isWhiteSpace ws" and "sg = [] \<or> sg = ''+'' \<or> sg = ''-''"
    and "r = [] \<or> \<not> isDigit (hd r) \<and> hd r \<notin> set ''.I''"
    and "sg = [] \<longrightarrow> r = [] \<or> \<not> isWhiteSpace (hd r) \<and> hd r \<notin> set ''+-''"
  shows "readInt_parseFn (Some (d @ t)) = JNum (toDouble (of_nat (radixVal 10 d))) \<and>
         readFloat_parseFn (Some (d @ t)) = JNum (toDouble (of_nat (radixVal 10 d))) \<and>
         \<not> isNaN (readInt_parseFn (Some (d @ t))) \<and>
         \<not> isNaN (readFloat_parseFn (Some (d @ t))) \<and>
         isNaN (readInt_parseFn (Some (ws @ sg @ r))) \<and>
         isNaN (readFloat_parseFn (Some (ws @ sg @ r))) \<and>
         (isNaN (readInt_parseFn (Some s)) \<or> readInt_parseFn (Some s) = JNum PosInf \<or>
            readInt_parseFn (Some s) = JNum NegInf \<or>
            (\<exists>n::int. readInt_parseFn (Some s) = JNum (Fin (of_int n)))) \<and>
         (\<exists>x. readFloat_parseFn (Some s) = JNum x) \<and>
         (isNaN (readBoolean_parseFn (Some s)) \<or> (\<exists>b. readBoolean_parseFn (Some s) = JBool b)) \<and>
         (\<not> isNaN (readBoolean_parseFn (Some w)) \<and> u \<noteq> []
            \<longrightarrow> isNaN (readBoolean_parseFn (Some (w @ u))))"
proof -
  note np = numeral_prefix [OF assms(1-3)]
  note nr = no_numeral_rejected [OF assms(4-7)]
  have a: "readInt_parseFn (Some (d @ t)) = JNum (toDouble (of_nat (radixVal 10 d)))"
    by (simp add: readInt_parseFn_def np num_eq_def toDouble_not_NaN)
  have b: "readFloat_parseFn (Some (d @ t)) = JNum (toDouble (of_nat (radixVal 10 d)))"
    by (simp add: readFloat_parseFn_def np)
  have ab: "\<not> isNaN (readInt_parseFn (Some (d @ t)))" "\<not> isNaN (readFloat_parseFn (Some (d @ t)))"
    by (simp_all only: a b isNaN_JNum toDouble_not_NaN not_False_eq_True)
  have rj: "isNaN (readInt_parseFn (Some (ws @ sg @ r)))"
    "isNaN (readFloat_parseFn (Some (ws @ sg @ r)))"
    by (simp_all add: readInt_parseFn_def readFloat_parseFn_def nr num_eq_def)
  have c: "isNaN (readInt_parseFn (Some s)) \<or> readInt_parseFn (Some s) = JNum PosInf \<or>
            readInt_parseFn (Some s) = JNum NegInf \<or>
            (\<exists>n::int. readInt_parseFn (Some s) = JNum (Fin (of_int n)))"
  proof (cases "num_eq (parseInt s) (parseFloat s)")
    case True
    then have "readInt_parseFn (Some s) = JNum (parseInt s)" "parseInt s \<noteq> NaN"
      by (auto simp add: readInt_parseFn_def num_eq_def split: if_splits)
    with parseInt_integer [of s] show ?thesis by auto
  next
    case False
    then show ?thesis by (simp add: readInt_parseFn_def)
  qed
  have d: "\<exists>x. readFloat_parseFn (Some s) = JNum x"
    by (simp add: readFloat_parseFn_def)
  have e: "isNaN (readBoolean_parseFn (Some s)) \<or> (\<exists>b. readBoolean_parseFn (Some s) = JBool b)"
    by (auto simp add: readBoolean_parseFn_def Let_def)
  from a b ab rj c d e boolean_no_longer_word [of w u] show ?thesis by blast
qed

theorem strategies_outcome_and_prefix_match_witness:
  "readInt_parseFn (Some (''12'' @ ''abc'')) = JNum (Fin 12) \<and>
   readFloat_parseFn (Some (''12'' @ ''abc'')) = JNum (Fin 12) \<and>
   isNaN (readInt_parseFn (Some ('' '' @ ''-'' @ ''abc''))) \<and>
   isNaN (readFloat_parseFn (Some ('' '' @ ''-'' @ ''abc''))) \<and>
   isNaN (readBoolean_parseFn (Some (''no'' @ ''pe'')))"
proof -
  have h: "''12'' \<noteq> []" "list_all isDigit ''12''"
    "''abc'' = [] \<or> \<not> isDigit (hd ''abc'') \<and> hd ''abc'' \<notin> set ''.eExX''"
    "list_all isWhiteSpace '' ''" "''-'' = [] \<or> ''-'' = ''+'' \<or> ''-'' = ''-''"
    "''abc'' = [] \<or> \<not> isDigit (hd ''abc'') \<and> hd ''abc'' \<notin> set ''.I''"
    "''-'' = [] \<longrightarrow> ''abc'' = [] \<or> \<not> isWhiteSpace (hd ''abc'') \<and> hd ''abc'' \<notin> set ''+-''"
    by (simp_all add: isDigit_def isWhiteSpace_def code_def)
  have "radixVal 10 ''12'' = 12"
    by (simp add: radixVal_def digitVal_def isDigit_def code_def)
  moreover have "toDouble (of_int 12) = Fin (of_int 12)" by (rule toDouble_small_int) simp
  ultimately have v: "toDouble (of_nat (radixVal 10 ''12'')) = Fin 12" by simp
  have n: "\<not> isNaN (readBoolean_parseFn (Some ''no''))" "''pe'' \<noteq> []"
    by (simp_all add: readBoolean_parseFn_def toLowerCase_def toLowerChar_def code_def)
  from strategies_outcome_and_prefix_match [OF h, where w = "''no''" and u = "''pe''"] n
  show ?thesis
    by (simp only: v) simp
qed

text \<open>
  Claim C7 as it is written fails at \<open>"12abc"\<close>: a numeric prefix followed by letters is
  accepted as 12 by the integer function and by the float function.
\<close>

theorem trailing_characters_accepted:
  "readInt_parseFn (Some ''12abc'') = JNum (Fin 12) \<and>
   readFloat_parseFn (Some ''12abc'') = JNum (Fin 12) \<and>
   \<not> isNaN (readInt_parseFn (Some ''12abc'')) \<and>
   \<not> isNaN (readFloat_parseFn (Some ''12abc''))"
  by (simp add: readInt_parseFn_def readFloat_parseFn_def num_eq_def parse_12abc)

lemma code_inj: "code c = code d \<longleftrightarrow> c = d"
  by (simp add: code_def)

lemma code_char_of: "code (char_of (n::nat)) = n mod 256"
  by (simp add: code_def)

lemma char_of_iff:
  "char_of (n::nat) = c \<longleftrightarrow> n mod 256 = code c"
  "c = char_of (n::nat) \<longleftrightarrow> n mod 256 = code c"
proof -
  show a: "char_of n = c \<longleftrightarrow> n mod 256 = code c"
    by (simp add: code_def char_of_eq_iff take_bit_eq_mod)
  show "c = char_of n \<longleftrightarrow> n mod 256 = code c"
    using a by blast
qed

lemma code_less: "code c < 256"
proof -
  have "code c mod 256 = code c" by (simp add: code_def)
  then show ?thesis by (metis mod_less_divisor zero_less_numeral)
qed

lemma toLowerChar_eq_iff:
  assumes "97 \<le> code d" "code d \<le> 122"
  shows "toLowerChar c = d \<longleftrightarrow> c = d \<or> c = upperOf d"
proof -
  have "toLowerChar c = d \<longleftrightarrow> code (toLowerChar c) = code d"
    by (simp add: code_inj)
  also have "\<dots> \<longleftrightarrow> code c = code d \<or> code c = code (upperOf d)"
    using assms code_less [of c]
    by (auto simp add: toLowerChar_def upperOf_def code_char_of)
  finally show ?thesis by (simp add: code_inj)
qed

lemma toLowerCase_eq_iff:
  "list_all (\<lambda>d. 97 \<le> code d \<and> code d \<le> 122) w \<Longrightarrow> toLowerCase s = w \<longleftrightarrow> casing_of w s"
proof (induction w arbitrary: s)
  case Nil
  then show ?case by (simp add: toLowerCase_def casing_of_def)
next
  case (Cons d w)
  then have IH: "\<And>s. (map toLowerChar s = w) = list_all2 (\<lambda>d c. c = d \<or> c = upperOf d) w s"
    by (simp add: toLowerCase_def casing_of_def)
  from Cons.prems have d: "97 \<le> code d" "code d \<le> 122" by simp_all
  show ?case
    by (cases s) (auto simp add: toLowerCase_def casing_of_def IH toLowerChar_eq_iff [OF d])
qed

lemma lower_words:
  "toLowerCase s = ''true'' \<longleftrightarrow> casing_of ''true'' s"
  "toLowerCase s = ''yes'' \<longleftrightarrow> casing_of ''yes'' s"
  "toLowerCase s = ''false'' \<longleftrightarrow> casing_of ''false'' s"
  "toLowerCase s = ''no'' \<longleftrightarrow> casing_of ''no'' s"
  by (rule toLowerCase_eq_iff, simp add: code_def)+

text \<open>
  Claim C8. The function \<open>readBoolean\<close> passes returns \<open>true\<close> exactly on the spellings
  of \<open>true\<close> and \<open>yes\<close> in any mix of cases, \<open>false\<close> exactly on those of \<open>false\<close> and
  \<open>no\<close>, and \<open>NaN\<close> on every other string; \<open>"maybe"\<close>, \<open>"1"\<close> and \<open>"0"\<close> are among
  the rejected.
\<close>

theorem boolean_words_any_case:
  "(readBoolean_parseFn (Some s) = JBool True) = (casing_of ''true'' s \<or> casing_of ''yes'' s) \<and>
   (readBoolean_parseFn (Some s) = JBool False) = (casing_of ''false'' s \<or> casing_of ''no'' s) \<and>
   (readBoolean_parseFn (Some s) = JNum NaN)
     = (\<not> (casing_of ''true'' s \<or> casing_of ''yes'' s \<or> casing_of ''false'' s \<or> casing_of ''no'' s)) \<and>
   readBoolean_parseFn (Some ''true'') = JBool True \<and>
   readBoolean_parseFn (Some ''TRUE'') = JBool True \<and>
   readBoolean_parseFn (Some ''yes'') = JBool True \<and>
   readBoolean_parseFn (Some ''YES'') = JBool True \<and>
   readBoolean_parseFn (Some ''tRuE'') = JBool True \<and>
   readBoolean_parseFn (Some ''false'') = JBool False \<and>
   readBoolean_parseFn (Some ''no'') = JBool False \<and>
   readBoolean_parseFn (Some ''NO'') = JBool False \<and>
   readBoolean_parseFn (Some ''False'') = JBool False \<and>
   readBoolean_parseFn (Some ''maybe'') = JNum NaN \<and>
   readBoolean_parseFn (Some ''1'') = JNum NaN \<and>
   readBoolean_parseFn (Some ''0'') = JNum NaN"
proof -
  have gen: "readBoolean_parseFn (Some s) =
          (if casing_of ''true'' s \<or> casing_of ''yes'' s then JBool True
           else if casing_of ''false'' s \<or> casing_of ''no'' s then JBool False
           else JNum NaN)"
    by (simp add: readBoolean_parseFn_def Let_def lower_words)
  have excl: "\<not> ((casing_of ''true'' s \<or> casing_of ''yes'' s) \<and> (casing_of ''false'' s \<or> casing_of ''no'' s))"
    by (auto simp add: lower_words [symmetric])
  have inst: "readBoolean_parseFn (Some ''true'') = JBool True"
    "readBoolean_parseFn (Some ''TRUE'') = JBool True"
    "readBoolean_parseFn (Some ''yes'') = JBool True"
    "readBoolean_parseFn (Some ''YES'') = JBool True"
    "readBoolean_parseFn (Some ''tRuE'') = JBool True"
    "readBoolean_parseFn (Some ''false'') = JBool False"
    "readBoolean_parseFn (Some ''no'') = JBool False"
    "readBoolean_parseFn (Some ''NO'') = JBool False"
    "readBoolean_parseFn (Some ''False'') = JBool False"
    "readBoolean_parseFn (Some ''maybe'') = JNum NaN"
    "readBoolean_parseFn (Some ''1'') = JNum NaN"
    "readBoolean_parseFn (Some ''0'') = JNum NaN"
    by (simp_all add: readBoolean_parseFn_def toLowerCase_def toLowerChar_def char_of_iff Let_def)
       (simp_all add: code_def)
  from excl show ?thesis unfolding inst by (auto simp add: gen)
qed

theorem boolean_words_any_case_witness:
  "casing_of ''yes'' ''yEs'' \<and> readBoolean_parseFn (Some ''yEs'') = JBool True"
proof -
  have "casing_of ''yes'' ''yEs''" by (simp add: casing_of_def upperOf_def char_of_iff) (simp add: code_def)
  with boolean_words_any_case [of "''yEs''"] show ?thesis by simp
qed

subsection \<open>The retry loop\<close>

lemma readLinePrivate_Some:
  assumes "fst (promptHandler c (env c) p) = r"
  shows "readLinePrivate p c =
           (r, c\<lparr>env := snd (promptHandler c (env c) p), prompted := prompted c @ [p]\<rparr>)"
  using assms by (simp add: readLinePrivate_def split_beta)

lemma readNumber_loop_exhaust:
  assumes rej: "\<And>g p. \<exists>s. fst (h g p) = Some s \<and> isNaN (parseFn (Some s))"
  shows "promptHandler c = h \<Longrightarrow> loopCount + n = 101 \<Longrightarrow>
         fst (readNumber_loop str parseFn e p loopCount c) = DEFAULT \<and>
         prompted (snd (readNumber_loop str parseFn e p loopCount c))
           = prompted c @ p # replicate n (retryPrompt e str) \<and>
         internalOutput (snd (readNumber_loop str parseFn e p loopCount c)) = internalOutput c \<and>
         internalOutputBuffer (snd (readNumber_loop str parseFn e p loopCount c)) = internalOutputBuffer c \<and>
         printed (snd (readNumber_loop str parseFn e p loopCount c)) = printed c"
proof (induction n arbitrary: loopCount p c)
  case 0
  obtain s where s: "fst (h (env c) p) = Some s" "isNaN (parseFn (Some s))"
    using rej by blast
  from s(2) have nn: "parseFn (Some s) \<noteq> JNull" by auto
  have rl: "readLinePrivate p c =
           (Some s, c\<lparr>env := snd (h (env c) p), prompted := prompted c @ [p]\<rparr>)"
    using readLinePrivate_Some [of c p "Some s"] s(1) 0(1) by simp
  from 0(2) have lc: "loopCount = 101" by simp
  show ?case
    by (subst readNumber_loop.simps, subst (2) readNumber_loop.simps,
        subst (3) readNumber_loop.simps, subst (4) readNumber_loop.simps,
        subst (5) readNumber_loop.simps)
       (simp add: rl s nn lc INFINITE_LOOP_CHECK_def)
next
  case (Suc n)
  obtain s where s: "fst (h (env c) p) = Some s" "isNaN (parseFn (Some s))"
    using rej by blast
  from s(2) have nn: "parseFn (Some s) \<noteq> JNull" by auto
  let ?c1 = "c\<lparr>env := snd (h (env c) p), prompted := prompted c @ [p]\<rparr>"
  have rl: "readLinePrivate p c = (Some s, ?c1)"
    using readLinePrivate_Some [of c p "Some s"] s(1) Suc.prems(1) by simp
  from Suc.prems(2) have lc: "\<not> loopCount > INFINITE_LOOP_CHECK" "Suc loopCount + n = 101"
    by (simp_all add: INFINITE_LOOP_CHECK_def)
  have step: "readNumber_loop str parseFn e p loopCount c
                = readNumber_loop str parseFn e (retryPrompt e str) (Suc loopCount) ?c1"
    by (subst readNumber_loop.simps) (simp add: rl s nn lc retryPrompt_def)
  have "promptHandler ?c1 = h" using Suc.prems(1) by simp
  from Suc.IH [OF this lc(2), of "retryPrompt e str"] show ?case
    by (simp add: step replicate_append_same)
qed


lemma readNumber_exhaust:
  assumes rej: "\<And>g p. \<exists>s. fst (promptHandler c g p) = Some s \<and> isNaN (parseFn (Some s))"
  shows "fst (readNumber str parseFn e c) = DEFAULT \<and>
         prompted (snd (readNumber str parseFn e c))
           = prompted c @ str # replicate 101 (retryPrompt e str) \<and>
         internalOutput (snd (readNumber str parseFn e c)) = internalOutput c \<and>
         internalOutputBuffer (snd (readNumber str parseFn e c)) = internalOutputBuffer c \<and>
         printed (snd (readNumber str parseFn e c)) = printed c"
  unfolding readNumber_def
  by (rule readNumber_loop_exhaust [where h = "promptHandler c"]) (use rej in simp_all)

lemma readNumber_loop_cancel:
  assumes "fst (promptHandler c (env c) p) = None"
  shows "readNumber_loop str parseFn e p loopCount c =
           (JNull, c\<lparr>env := snd (promptHandler c (env c) p), prompted := prompted c @ [p]\<rparr>)"
  by (subst readNumber_loop.simps) (simp add: readLinePrivate_Some [OF assms])

lemma readNumber_loop_cong:
  "(\<And>s. f (Some s) = g (Some s)) \<Longrightarrow>
   readNumber_loop str f e p n c = readNumber_loop str g e p n c"
proof (induction str f e p n c rule: readNumber_loop.induct)
  case (1 str parseFn errorMsgType prompt loopCount c)
  obtain line c1 where rl: "readLinePrivate prompt c = (line, c1)"
    by (cases "readLinePrivate prompt c")
  show ?case
  proof (cases line)
    case None
    then show ?thesis
      by (subst readNumber_loop.simps, subst (2) readNumber_loop.simps) (simp add: rl)
  next
    case (Some s)
    have fg: "parseFn (Some s) = g (Some s)" using "1.prems" by simp
    show ?thesis
    proof (cases "\<not> isNaN (g (Some s)) \<or> g (Some s) = JNull \<or> loopCount > INFINITE_LOOP_CHECK")
      case True
      then show ?thesis
        by (subst readNumber_loop.simps, subst (2) readNumber_loop.simps)
           (auto simp add: rl fg Some Let_def)
    next
      case False
      with "1.IH" [OF rl [symmetric] refl _ refl] Some fg "1.prems"
      have "readNumber_loop str parseFn errorMsgType
              (''That was not '' @ errorMsgType @ ''. Please try again. '' @ str) (loopCount + 1) c1
            = readNumber_loop str g errorMsgType
              (''That was not '' @ errorMsgType @ ''. Please try again. '' @ str) (loopCount + 1) c1"
        by simp
      with False show ?thesis
        by (subst readNumber_loop.simps, subst (2) readNumber_loop.simps)
           (simp add: rl fg Some Let_def)
    qed
  qed
qed

lemma reject_abc: "readInt_parseFn (Some ''abc'') = JNum NaN"
  by (simp add: readInt_parseFn_def parseInt_def parseFloat_def trimStart_def
        isWhiteSpace_def isDigit_def code_def num_eq_def)

lemma reject_maybe: "readBoolean_parseFn (Some ''maybe'') = JNum NaN"
  by (simp add: readBoolean_parseFn_def toLowerCase_def toLowerChar_def code_def)

text \<open>
  Claim C1, as the code has it. Against a prompt handler whose every answer is a string
  that the integer parse function rejects (\<open>"abc"\<close> is one), \<open>readInt\<close> returns the
  number 0 after the handler has been called 102 times: once with the prompt itself and
  101 times with the retry prompt. The test \<open>loopCount > INFINITE_LOOP_CHECK\<close> is made
  before \<open>loopCount\<close> is incremented, so it first holds in the turn that starts with
  \<open>loopCount = 101\<close>.
\<close>

theorem readInt_unparseable_exhausts_after_102:
  assumes "\<forall>g p. \<exists>s. fst (promptHandler c g p) = Some s \<and> isNaN (readInt_parseFn (Some s))"
  shows "fst (readInt [str] c) = Inr (JNum (Fin 0)) \<and>
         prompted (snd (readInt [str] c))
           = prompted c @ str # replicate 101 (retryPrompt ''an integer'' str) \<and>
         length (prompted (snd (readInt [str] c))) = length (prompted c) + 102"
proof -
  from assms
  have "\<And>g p. \<exists>s. fst (promptHandler c g p) = Some s \<and> isNaN (readInt_parseFn (Some s))"
    by simp
  from readNumber_exhaust [OF this, of str "''an integer''"] show ?thesis
    by (simp add: readInt_def split_beta DEFAULT_def)
qed

theorem readInt_unparseable_exhausts_after_102_witness:
  "isNaN (readInt_parseFn (Some ''abc'')) \<and>
   fst (readInt [''Age? ''] (new_console (\<lambda>g p. (Some ''abc'', g)) ())) = Inr (JNum (Fin 0)) \<and>
   length (prompted (snd (readInt [''Age? ''] (new_console (\<lambda>g p. (Some ''abc'', g)) ())))) = 102"
  using readInt_unparseable_exhausts_after_102
          [of "new_console (\<lambda>g p. (Some ''abc'', g)) ()" "''Age? ''"]
  by (simp add: new_console_def reject_abc)

text \<open>The count of claim C1 as it is written, 101 calls, is not what the loop does.\<close>

theorem readInt_abc_not_101_attempts:
  "length (prompted (snd (readInt [''Age? ''] (new_console (\<lambda>g p. (Some ''abc'', g)) ()))))
     \<noteq> 101"
proof -
  have "\<And>g p. \<exists>s. fst (promptHandler (new_console (\<lambda>g p. (Some ''abc'', g)) ()) g p) = Some s
           \<and> isNaN (readInt_parseFn (Some s))"
    by (simp add: reject_abc new_console_def)
  from readNumber_exhaust [OF this, of "''Age? ''" "''an integer''"] show ?thesis
    by (simp add: readInt_def split_beta new_console_def)
qed

text \<open>
  Claim C2. If the prompt handler answers \<open>null\<close> to the first call, each typed read
  returns \<open>null\<close> at once: the handler has been called exactly once, with the prompt
  itself, and nothing else of the console has changed. The result of \<open>readNumber\<close> is the
  same for every parse function, so none has a say in it, and no default is returned.
\<close>

theorem cancelled_first_call_returns_null:
  assumes "fst (promptHandler c (env c) str) = None"
  shows "readNumber str parseFn e c
           = (JNull, c\<lparr>env := snd (promptHandler c (env c) str), prompted := prompted c @ [str]\<rparr>) \<and>
         readInt [str] c
           = (Inr JNull, c\<lparr>env := snd (promptHandler c (env c) str), prompted := prompted c @ [str]\<rparr>) \<and>
         readFloat [str] c
           = (Inr JNull, c\<lparr>env := snd (promptHandler c (env c) str), prompted := prompted c @ [str]\<rparr>) \<and>
         readBoolean [str] c
           = (Inr JNull, c\<lparr>env := snd (promptHandler c (env c) str), prompted := prompted c @ [str]\<rparr>)"
  by (simp add: readNumber_def readInt_def readFloat_def readBoolean_def
        readNumber_loop_cancel [OF assms])

theorem cancelled_first_call_returns_null_witness:
  "readInt [''Age? ''] (new_console (\<lambda>g p. (None, Suc g)) 0)
     = (Inr JNull, (new_console (\<lambda>g p. (None, Suc g)) 0)\<lparr>env := 1, prompted := [''Age? '']\<rparr>) \<and>
   fst (readFloat [''Age? ''] (new_console (\<lambda>g p. (None, Suc g)) 0)) = Inr JNull \<and>
   fst (readBoolean [''Age? ''] (new_console (\<lambda>g p. (None, Suc g)) 0)) = Inr JNull"
  using cancelled_first_call_returns_null
          [of "new_console (\<lambda>g p. (None, Suc g)) 0" "''Age? ''"]
  by (simp add: new_console_def)

text \<open>
  Claim C5, as the code has it. When every answer of the prompt handler is a string that
  the boolean parse function rejects, \<open>readBoolean\<close> returns \<open>DEFAULT\<close>, the number 0
  that \<open>readNumber\<close> returns for every domain; it is not the boolean \<open>false\<close>.
\<close>

theorem readBoolean_exhausted_returns_number_zero:
  assumes "\<forall>g p. \<exists>s. fst (promptHandler c g p) = Some s \<and> isNaN (readBoolean_parseFn (Some s))"
  shows "fst (readBoolean [str] c) = Inr (JNum (Fin 0)) \<and>
         fst (readBoolean [str] c) \<noteq> Inr (JBool False) \<and>
         length (prompted (snd (readBoolean [str] c))) = length (prompted c) + 102"
proof -
  from assms
  have "\<And>g p. \<exists>s. fst (promptHandler c g p) = Some s \<and> isNaN (readBoolean_parseFn (Some s))"
    by simp
  from readNumber_exhaust [OF this, of str "''a boolean (true/false)''"] show ?thesis
    by (simp add: readBoolean_def split_beta DEFAULT_def)
qed

theorem readBoolean_exhausted_returns_number_zero_witness:
  "fst (readBoolean [''Sure? ''] (new_console (\<lambda>g p. (Some ''maybe'', g)) ()))
     = Inr (JNum (Fin 0))"
  using readBoolean_exhausted_returns_number_zero
          [of "new_console (\<lambda>g p. (Some ''maybe'', g)) ()" "''Sure? ''"]
  by (simp add: new_console_def reject_maybe)

text \<open>The value of claim C5 as it is written, the boolean \<open>false\<close>, is not what is
  returned.\<close>

theorem readBoolean_exhausted_not_false:
  "fst (readBoolean [''Sure? ''] (new_console (\<lambda>g p. (Some ''maybe'', g)) ()))
     \<noteq> Inr (JBool False)"
proof -
  have "\<And>g p. \<exists>s. fst (promptHandler (new_console (\<lambda>g p. (Some ''maybe'', g)) ()) g p) = Some s
           \<and> isNaN (readBoolean_parseFn (Some s))"
    by (simp add: reject_maybe new_console_def)
  from readNumber_exhaust [OF this, of "''Sure? ''" "''a boolean (true/false)''"] show ?thesis
    by (simp add: readBoolean_def split_beta DEFAULT_def)
qed

text \<open>
  Claim C10. \<open>readNumber\<close> tests the answer of the prompt handler for \<open>null\<close> before it
  applies the parse function, so the parse function only ever sees strings: two parse
  functions that agree on every string give the same read, whatever they do on \<open>null\<close>.
  In particular the branch \<open>line === null\<close> of the function \<open>readBoolean\<close> passes is
  never taken: any value \<open>v\<close> in its place gives the same read.
\<close>

theorem parseFn_never_applied_to_null:
  assumes "\<forall>s. f (Some s) = g (Some s)"
  shows "readNumber str f e c = readNumber str g e c \<and>
         readNumber str (\<lambda>line. case line of None \<Rightarrow> v | Some l \<Rightarrow> readBoolean_parseFn (Some l)) e c
           = readNumber str readBoolean_parseFn e c"
proof -
  have a: "readNumber str f e c = readNumber str g e c"
    unfolding readNumber_def using assms by (intro readNumber_loop_cong) simp
  have b: "readNumber str (\<lambda>line. case line of None \<Rightarrow> v | Some l \<Rightarrow> readBoolean_parseFn (Some l)) e c
           = readNumber str readBoolean_parseFn e c"
    unfolding readNumber_def by (intro readNumber_loop_cong) simp
  from a b show ?thesis by simp
qed

theorem parseFn_never_applied_to_null_witness:
  "readNumber ''Sure? '' (\<lambda>line. case line of None \<Rightarrow> JBool True | Some l \<Rightarrow> readBoolean_parseFn (Some l))
       ''a boolean (true/false)'' (new_console (\<lambda>g p. (if g = (0::nat) then Some ''x'' else None, Suc g)) 0)
   = readNumber ''Sure? '' readBoolean_parseFn
       ''a boolean (true/false)'' (new_console (\<lambda>g p. (if g = (0::nat) then Some ''x'' else None, Suc g)) 0)"
  using parseFn_never_applied_to_null
     [of "\<lambda>line. case line of None \<Rightarrow> JBool True | Some l \<Rightarrow> readBoolean_parseFn (Some l)"
         readBoolean_parseFn "''Sure? ''" "''a boolean (true/false)''"
         "new_console (\<lambda>g p. (if g = (0::nat) then Some ''x'' else None, Suc g)) 0"]
  by simp

subsection \<open>The output buffers\<close>

text \<open>The helper of the class, on the two texts: the trailing empty piece is dropped, an
  unterminated fragment is a line of its own.\<close>

lemma bufferedOutputToArray_lines:
  "bufferedOutputToArray (''a'' @ [newline] @ ''b'' @ [newline]) = [''a'', ''b'']"
  "bufferedOutputToArray (''a'' @ [newline] @ ''b'') = [''a'', ''b'']"
  by (simp_all add: bufferedOutputToArray_def)

text \<open>
  Claim C3 at \<open>print("a\nb\n")\<close> followed by the flush. \<open>flushQuietOutput\<close> calls
  \<open>bufferedOutputToArray\<close> as a bare identifier, and the module binds none: on every
  console the flush throws a ReferenceError, returns no lines and resets nothing. After
  \<open>print("a\nb\n")\<close>, or \<open>print("a\nb")\<close>, the result is that error and not
  \<open>["a","b"]\<close>, and the printed text stays, unsplit, in \<open>internalOutput\<close>.
\<close>

theorem flush_throws_reference_error:
  "flushQuietOutput None c
     = (Inl (ReferenceError ''bufferedOutputToArray is not defined''), c) \<and>
   fst (flushQuietOutput None (snd (print [''a'' @ [newline] @ ''b'' @ [newline]] c)))
     = Inl (ReferenceError ''bufferedOutputToArray is not defined'') \<and>
   fst (flushQuietOutput None (snd (print [''a'' @ [newline] @ ''b'' @ [newline]] c)))
     \<noteq> Inr [''a'', ''b''] \<and>
   fst (flushQuietOutput None (snd (print [''a'' @ [newline] @ ''b''] c)))
     \<noteq> Inr [''a'', ''b''] \<and>
   internalOutput
     (snd (flushQuietOutput None (snd (print [''a'' @ [newline] @ ''b'' @ [newline]] c))))
     = internalOutput c @ [''a'' @ [newline] @ ''b'' @ [newline]] \<and>
   internalOutputBuffer
     (snd (flushQuietOutput None (snd (print [''a'' @ [newline] @ ''b'' @ [newline]] c))))
     = internalOutputBuffer c"
  by (simp add: flushQuietOutput_def print_def Let_def)

text \<open>With one argument \<open>println\<close> is \<open>print\<close> of the line and a newline.\<close>

lemma println_one: "println [line] c = print [line @ [newline]] c"
  by (simp add: println_def)

text \<open>
  Claim C4 at the call with no argument. \<open>println()\<close> returns without calling
  \<open>print\<close>: the console is unchanged and the display sink is not called, whereas
  \<open>print("\n")\<close> stores the newline and hands it to the sink.
\<close>

theorem println_no_argument_prints_nothing:
  "println [] c = (Inr (), c) \<and> println [] c \<noteq> print [[newline]] c \<and>
   printed (snd (println [] c)) = printed c \<and>
   printed (snd (print [[newline]] c)) = printed c @ [[newline]]"
proof -
  have "internalOutput (snd (print [[newline]] c)) \<noteq> internalOutput (snd (println [] c))"
    by (simp add: print_def println_def Let_def)
  then have "println [] c \<noteq> print [[newline]] c" by auto
  then show ?thesis by (simp add: print_def println_def Let_def)
qed

subsection \<open>Arity\<close>

text \<open>
  Claim C9. Called with a number of arguments other than one, \<open>print\<close>, \<open>readLine\<close>,
  \<open>readBoolean\<close>, \<open>readInt\<close> and \<open>readFloat\<close> throw; so does \<open>println\<close> called with
  more than one (a call with none is its default form). The console that comes back with
  the error is the one that went in: no entry captured, nothing pending, and neither the
  display sink nor the prompt handler called. \<open>print()\<close> and \<open>print("x","y")\<close> are the
  two instances the claim names.
\<close>

theorem wrong_arity_raises_before_io:
  "(length args \<noteq> 1 \<longrightarrow>
      print args c = (Inl (Error ''You should pass exactly 1 argument to print''), c) \<and>
      readLine args c = (Inl (Error ''You should pass exactly 1 argument to readLine''), c) \<and>
      readBoolean args c = (Inl (Error ''You should pass exactly 1 argument to readBoolean''), c) \<and>
      readInt args c = (Inl (Error ''You should pass exactly 1 argument to readInt''), c) \<and>
      readFloat args c = (Inl (Error ''You should pass exactly 1 argument to readFloat''), c)) \<and>
   (1 < length args \<longrightarrow>
      println args c = (Inl (Error ''You should pass exactly 1 argument to println''), c)) \<and>
   print [] c = (Inl (Error ''You should pass exactly 1 argument to print''), c) \<and>
   print [''x'', ''y''] c = (Inl (Error ''You should pass exactly 1 argument to print''), c)"
  by (simp add: print_def println_def readLine_def readBoolean_def readInt_def readFloat_def)

theorem wrong_arity_raises_before_io_witness:
  "readInt [''x'', ''y''] (new_console (\<lambda>g p. (Some ''1'', g)) ())
     = (Inl (Error ''You should pass exactly 1 argument to readInt''),
        new_console (\<lambda>g p. (Some ''1'', g)) ()) \<and>
   println [''x'', ''y''] (new_console (\<lambda>g p. (Some ''1'', g)) ())
     = (Inl (Error ''You should pass exactly 1 argument to println''),
        new_console (\<lambda>g p. (Some ''1'', g)) ())"
  using wrong_arity_raises_before_io [of "[''x'', ''y'']" "new_console (\<lambda>g p. (Some ''1'', g)) ()"]
  by simp

end
